theory Spec2Isabelle
  imports Main
begin

section \<open>Characters and strings as the client sees them\<close>

text \<open>
  A \<^verbatim>\<open>std::string\<close> is a sequence of bytes, here a \<^typ>\<open>string\<close>. The character
  classes are those of the "C" locale, the locale a \<^verbatim>\<open>std::regex\<close> carries unless the
  program installs another one (this client installs none).
\<close>

definition isalnum :: "char \<Rightarrow> bool" where
  "isalnum c = (let n = (of_char c :: nat) in
     (48 \<le> n \<and> n \<le> 57) \<or> (65 \<le> n \<and> n \<le> 90) \<or> (97 \<le> n \<and> n \<le> 122))"

definition isspace :: "char \<Rightarrow> bool" where
  "isspace c = (let n = (of_char c :: nat) in n = 32 \<or> (9 \<le> n \<and> n \<le> 13))"

definition tolower :: "char \<Rightarrow> char" where
  "tolower c = (let n = (of_char c :: nat) in
     if 65 \<le> n \<and> n \<le> 90 then char_of (n + 32) else c)"

section \<open>The regular expressions of FuelClientPrivate\<close>

text \<open>
  The two patterns of \<^verbatim>\<open>FuelClientPrivate\<close> are built from single characters, bracket
  expressions, the quantifiers \<^verbatim>\<open>+\<close> and \<^verbatim>\<open>*\<close> on one of these, the assertion \<^verbatim>\<open>^\<close>,
  and capture groups around a quantified bracket expression. The syntax below has
  exactly these forms.
\<close>

datatype bitem = BChar char | BAlnum | BSpace

datatype atom = Lit char | Bracket bool "bitem list"

datatype node = Bol | Atom atom | PlusN atom | StarN atom | CapPlus atom

fun bitem_ok :: "bitem \<Rightarrow> char \<Rightarrow> bool" where
  "bitem_ok (BChar c) x = (x = c)"
| "bitem_ok BAlnum x = isalnum x"
| "bitem_ok BSpace x = isspace x"

text \<open>\<open>Bracket neg items\<close> is \<^verbatim>\<open>[items]\<close>, or \<^verbatim>\<open>[^items]\<close> when \<open>neg\<close> holds.\<close>

fun atom_ok :: "atom \<Rightarrow> char \<Rightarrow> bool" where
  "atom_ok (Lit c) x = (x = c)"
| "atom_ok (Bracket neg items) x = (neg \<noteq> list_ex (\<lambda>i. bitem_ok i x) items)"

text \<open>
  The ways a greedy quantifier can take a prefix of the input, in the order a
  backtracking matcher tries them: the longest prefix first, the empty one last.
\<close>

fun splits :: "(char \<Rightarrow> bool) \<Rightarrow> string \<Rightarrow> (string \<times> string) list" where
  "splits P [] = [([], [])]"
| "splits P (x # xs) =
     (if P x then map (\<lambda>(p, r). (x # p, r)) (splits P xs) @ [([], x # xs)]
      else [([], x # xs)])"

text \<open>
  \<open>run ts b s\<close> lists, in the matcher's order of preference, the captures of every way
  the pattern \<open>ts\<close> matches the whole of \<open>s\<close>; \<open>b\<close> says that no character has been
  consumed yet, which is what \<^verbatim>\<open>^\<close> asserts.
\<close>

fun run :: "node list \<Rightarrow> bool \<Rightarrow> string \<Rightarrow> string list list" where
  "run [] b s = (if s = [] then [[]] else [])"
| "run (Bol # ts) b s = (if b then run ts b s else [])"
| "run (Atom a # ts) b s =
     (case s of [] \<Rightarrow> [] | x # xs \<Rightarrow> if atom_ok a x then run ts False xs else [])"
| "run (StarN a # ts) b s =
     concat (map (\<lambda>(p, r). run ts (b \<and> p = []) r) (splits (atom_ok a) s))"
| "run (PlusN a # ts) b s =
     concat (map (\<lambda>(p, r). run ts False r)
       (filter (\<lambda>(p, r). p \<noteq> []) (splits (atom_ok a) s)))"
| "run (CapPlus a # ts) b s =
     concat (map (\<lambda>(p, r). map ((#) p) (run ts False r))
       (filter (\<lambda>(p, r). p \<noteq> []) (splits (atom_ok a) s)))"

text \<open>
  \<^verbatim>\<open>std::regex_match(s, match, re)\<close>: the pattern has to match all of \<open>s\<close>; the first
  way found fills \<^verbatim>\<open>match\<close>, whose entry 0 is the whole match and whose further
  entries are the capture groups.
\<close>

definition regex_match :: "node list \<Rightarrow> string \<Rightarrow> string list option" where
  "regex_match re s = (case run re True s of [] \<Rightarrow> None | caps # _ \<Rightarrow> Some (s # caps))"

definition lits :: "string \<Rightarrow> node list" where
  "lits w = map (\<lambda>c. Atom (Lit c)) w"

definition slash :: atom where
  "slash = Lit CHR ''/''"

definition scheme_cls :: atom where
  "scheme_cls = Bracket False [BAlnum, BChar CHR ''.'', BChar CHR ''+'', BChar CHR ''-'']"

definition seg_cls :: atom where
  "seg_cls = Bracket True [BChar CHR ''/'', BSpace]"

definition name_cls :: atom where
  "name_cls = Bracket True [BChar CHR ''/'']"

text \<open>
  The pattern of a model URL, once the compiler has read the string literal of the
  source, is

  \<^verbatim>\<open>^([[:alnum:]\.\+\-]+):\/\/([^\/\s]+)\/+([^\/\s]+)\/+([^\/\s]+)\/+models\/+([^\/]+)\/*\<close>

  in the ECMAScript grammar of \<^verbatim>\<open>std::regex\<close>, where a backslash before a punctuation
  character stands for that character and \<^verbatim>\<open>\s\<close> for white space. The pattern of a
  unique name has one group less:

  \<^verbatim>\<open>^([[:alnum:]\.\+\-]+):\/\/([^\/\s]+)\/+([^\/\s]+)\/+models\/+([^\/]+)\/*\<close>
\<close>

definition kModelURLRegexStr :: "node list" where
  "kModelURLRegexStr =
     [Bol, CapPlus scheme_cls] @ lits '':'' @ [Atom slash, Atom slash] @
     [CapPlus seg_cls, PlusN slash] @
     [CapPlus seg_cls, PlusN slash] @
     [CapPlus seg_cls, PlusN slash] @
     lits ''models'' @ [PlusN slash] @
     [CapPlus name_cls, StarN slash]"

definition kModelUniqueNameRegexStr :: "node list" where
  "kModelUniqueNameRegexStr =
     [Bol, CapPlus scheme_cls] @ lits '':'' @ [Atom slash, Atom slash] @
     [CapPlus seg_cls, PlusN slash] @
     [CapPlus seg_cls, PlusN slash] @
     lits ''models'' @ [PlusN slash] @
     [CapPlus name_cls, StarN slash]"

text \<open>
  Two notions for reasoning about the matcher: an input that does not begin with a
  character of a class, and a pattern that matches no input beginning with one.
\<close>

definition nstart :: "(char \<Rightarrow> bool) \<Rightarrow> string \<Rightarrow> bool" where
  "nstart P r = (case r of [] \<Rightarrow> True | x # xs \<Rightarrow> \<not> P x)"

definition rejects :: "(char \<Rightarrow> bool) \<Rightarrow> node list \<Rightarrow> bool" where
  "rejects P ts = (\<forall>b x xs. P x \<longrightarrow> run ts b (x # xs) = [])"

text \<open>
  Well-formed components of a model reference, in the words of the grammar: a scheme of
  alphanumerics, dots, pluses and minuses; a host, version or owner without slash or
  white space; a name without slash; a run of slashes. Each component is non-empty.
\<close>

definition scheme_ok :: "string \<Rightarrow> bool" where
  "scheme_ok s = (s \<noteq> [] \<and>
     list_all (\<lambda>c. isalnum c \<or> c = CHR ''.'' \<or> c = CHR ''+'' \<or> c = CHR ''-'') s)"

definition segment_ok :: "string \<Rightarrow> bool" where
  "segment_ok s = (s \<noteq> [] \<and> list_all (\<lambda>c. c \<noteq> CHR ''/'' \<and> \<not> isspace c) s)"

definition name_ok :: "string \<Rightarrow> bool" where
  "name_ok s = (s \<noteq> [] \<and> list_all (\<lambda>c. c \<noteq> CHR ''/'') s)"

definition slashes :: "string \<Rightarrow> bool" where
  "slashes s = list_all (\<lambda>c. c = CHR ''/'') s"

section \<open>Data of the client\<close>

text \<open>
  Modelled from the spec: \<^verbatim>\<open>ServerConfig\<close> (ClientConfig.hh) is the spec's
  ServerDescriptor, a url, an API version and a local alias, each read and written by
  an accessor of the field's name; a default-constructed one has all three empty.
\<close>

record ServerConfig =
  URL :: string
  LocalName :: string
  Version :: string

text \<open>
  Modelled from the spec: \<^verbatim>\<open>ModelIdentifier\<close> (ModelIdentifier.hh) is the spec's
  Identifier: owner, name and the server it comes from. Its setters store their
  argument as it is.
\<close>

record ModelIdentifier =
  Owner :: string
  Name :: string
  Server :: ServerConfig

text \<open>
  Modelled from the spec: \<^verbatim>\<open>ClientConfig\<close> (ClientConfig.hh) holds the ordered
  collection of known servers and the location of the cache.
\<close>

record ClientConfig =
  Servers :: "ServerConfig list"
  CacheLocation :: string

definition default_ServerConfig :: ServerConfig where
  "default_ServerConfig = \<lparr>URL = [], LocalName = [], Version = []\<rparr>"

definition default_ModelIdentifier :: ModelIdentifier where
  "default_ModelIdentifier = \<lparr>Owner = [], Name = [], Server = default_ServerConfig\<rparr>"

text \<open>
  Modelled from the spec: the tagged outcome \<^verbatim>\<open>Result\<close> (Result.hh), which converts
  to true for the kinds that report success.
\<close>

datatype Result = FETCH | FETCH_ALREADY_EXISTS | FETCH_ERROR | UPLOAD_ERROR | DELETE_ERROR

fun Result_bool :: "Result \<Rightarrow> bool" where
  "Result_bool FETCH = True"
| "Result_bool FETCH_ALREADY_EXISTS = True"
| "Result_bool FETCH_ERROR = False"
| "Result_bool UPLOAD_ERROR = False"
| "Result_bool DELETE_ERROR = False"

text \<open>Modelled from the spec: \<^verbatim>\<open>RESTResponse\<close> (REST.hh), a status code and a body.\<close>

record RESTResponse =
  statusCode :: int
  data :: string

datatype Method = GET | POST | DELETE

text \<open>
  Modelled from the spec: a \<^verbatim>\<open>ModelIter\<close> (ModelIter.hh) enumerates models; it converts
  to true when it has a model to yield.
\<close>

type_synonym ModelIter = "ModelIdentifier list"

definition ModelIter_bool :: "ModelIter \<Rightarrow> bool" where
  "ModelIter_bool it = (it \<noteq> [])"

text \<open>
  Modelled from the spec: \<^verbatim>\<open>ignition::common::joinPaths\<close> puts the separator between
  its arguments, and \<^verbatim>\<open>ignition::common::replaceAll\<close> replaces every occurrence of
  one string by another (the client calls it for single characters only).
\<close>

definition joinPaths :: "string \<Rightarrow> string \<Rightarrow> string" where
  "joinPaths a b = a @ ''/'' @ b"

definition replaceAll_char :: "string \<Rightarrow> char \<Rightarrow> char \<Rightarrow> string" where
  "replaceAll_char s a b = map (\<lambda>c. if c = a then b else c) s"

section \<open>Collaborators and what the client does to them\<close>

text \<open>
  The transport, the cache, the iterator factory and the JSON decoder are outside the
  client. Their answers are parameters of the model, and every call the client makes
  to one of them, and every line it writes to the console, is recorded in order.
\<close>

record collaborators =
  rest_Request :: "Method \<Rightarrow> string \<Rightarrow> string \<Rightarrow> string \<Rightarrow> string list \<Rightarrow> string list
                   \<Rightarrow> string \<Rightarrow> RESTResponse"
  iter_Create :: "ServerConfig \<Rightarrow> string \<Rightarrow> ModelIter"
  cache_AllModels :: ModelIter
  cache_MatchingModels :: "ModelIdentifier \<Rightarrow> ModelIter"
  cache_SaveModel :: "ModelIdentifier \<Rightarrow> string \<Rightarrow> bool \<Rightarrow> bool"
  json_ParseModel :: "string \<Rightarrow> ServerConfig \<Rightarrow> ModelIdentifier"

datatype event =
    RestRequest Method string string string "string list" "string list" string
  | IterCreate ServerConfig string
  | CacheAllModels
  | CacheMatchingModels ModelIdentifier
  | CacheSaveModel ModelIdentifier string bool
  | WarnVersion string ServerConfig
  | WarnIncomplete ServerConfig
  | WarnFetchFailed
  | MsgNotInCache ModelIdentifier

fun remote :: "event \<Rightarrow> bool" where
  "remote (RestRequest m u v p q h d) = True"
| "remote (IterCreate s p) = True"
| "remote e = False"

fun cache_write :: "event \<Rightarrow> bool" where
  "cache_write (CacheSaveModel i d ov) = True"
| "cache_write e = False"

text \<open>
  Modelled from the spec: the address \<^verbatim>\<open>REST::Request\<close> (REST.hh) asks for, made of
  the server's url, the API version and the path.
\<close>

definition request_target :: "event \<Rightarrow> string" where
  "request_target e = (case e of RestRequest m u v p q h d \<Rightarrow> u @ ''/'' @ v @ ''/'' @ p | _ \<Rightarrow> [])"

section \<open>FuelClient\<close>

subsection \<open>ModelDetails\<close>

definition ModelDetails ::
  "collaborators \<Rightarrow> ServerConfig \<Rightarrow> ModelIdentifier \<Rightarrow> ModelIdentifier
   \<Rightarrow> Result \<times> ModelIdentifier \<times> event list" where
  "ModelDetails ext server ident model =
     (let serverURL = URL server;
          version = Version server;
          path = joinPaths (joinPaths (Owner ident) ''models'') (Name ident);
          resp = rest_Request ext GET serverURL version path [] [] [];
          log = [RestRequest GET serverURL version path [] [] []]
      in if statusCode resp \<noteq> 200 then (FETCH_ERROR, model, log)
         else (FETCH, json_ParseModel ext (data resp) server, log))"

subsection \<open>Models\<close>

definition Models1 :: "collaborators \<Rightarrow> ServerConfig \<Rightarrow> ModelIter \<times> event list" where
  "Models1 ext server =
     (let iter = iter_Create ext server ''models''
      in if \<not> ModelIter_bool iter
         then (cache_AllModels ext, [IterCreate server ''models'', WarnFetchFailed, CacheAllModels])
         else (iter, [IterCreate server ''models'']))"

definition Models2 ::
  "collaborators \<Rightarrow> ServerConfig \<Rightarrow> ModelIdentifier \<Rightarrow> ModelIter \<times> event list" where
  "Models2 ext server ident =
     (let localIter = cache_MatchingModels ext ident
      in if ModelIter_bool localIter then (localIter, [CacheMatchingModels ident])
         else
           (let path = joinPaths (joinPaths (Owner ident) ''models'') (Name ident)
            in (iter_Create ext server path,
                [CacheMatchingModels ident, MsgNotInCache ident, IterCreate server path])))"

subsection \<open>UploadModel and DeleteModel\<close>

definition UploadModel :: "ServerConfig \<Rightarrow> string \<Rightarrow> ModelIdentifier \<Rightarrow> Result" where
  "UploadModel server pathToModelDir ident = UPLOAD_ERROR"

definition DeleteModel :: "ServerConfig \<Rightarrow> ModelIdentifier \<Rightarrow> Result" where
  "DeleteModel server ident = DELETE_ERROR"

subsection \<open>DownloadModel of a server and an identifier\<close>

definition DownloadModel ::
  "collaborators \<Rightarrow> ServerConfig \<Rightarrow> ModelIdentifier \<Rightarrow> Result \<times> event list" where
  "DownloadModel ext server ident =
     (let serverURL = URL server;
          version = Version server;
          path = joinPaths (joinPaths (Owner ident) ''models'') (Name ident @ ''.zip'');
          resp = rest_Request ext GET serverURL version path [] [] [];
          log = [RestRequest GET serverURL version path [] [] []]
      in if statusCode resp \<noteq> 200 then (FETCH_ERROR, log)
         else if \<not> cache_SaveModel ext ident (data resp) True
         then (FETCH_ERROR, log @ [CacheSaveModel ident (data resp) True])
         else (FETCH, log @ [CacheSaveModel ident (data resp) True]))"

subsection \<open>ParseModelURL\<close>

text \<open>
  The two attempts of \<^verbatim>\<open>ParseModelURL\<close>, the versioned URL first, and the five strings
  they fill: scheme, server, version, owner and name.
\<close>

definition parse_groups :: "string \<Rightarrow> (string \<times> string \<times> string \<times> string \<times> string) option" where
  "parse_groups modelURL =
     (case regex_match kModelURLRegexStr modelURL of
        Some [m0, m1, m2, m3, m4, m5] \<Rightarrow> Some (m1, m2, m3, m4, m5)
      | _ \<Rightarrow>
        (case regex_match kModelUniqueNameRegexStr modelURL of
           Some [m0, m1, m2, m3, m4] \<Rightarrow> Some (m1, m2, [], m3, m4)
         | _ \<Rightarrow> None))"

text \<open>The loop over the configured servers, left at the first one with the same url.\<close>

fun lookup_server ::
  "ServerConfig list \<Rightarrow> string \<Rightarrow> ServerConfig \<Rightarrow> ServerConfig \<times> event list" where
  "lookup_server [] version srv = (srv, [])"
| "lookup_server (s # rest) version srv =
     (if URL s = URL srv
      then (s, if version \<noteq> [] \<and> Version s \<noteq> Version srv then [WarnVersion version s] else [])
      else lookup_server rest version srv)"

definition ParseModelURL ::
  "ClientConfig \<Rightarrow> string \<Rightarrow> ServerConfig \<Rightarrow> ModelIdentifier
   \<Rightarrow> bool \<times> ServerConfig \<times> ModelIdentifier \<times> event list" where
  "ParseModelURL config modelURL srv ident =
     (case parse_groups modelURL of
        None \<Rightarrow> (False, srv, ident, [])
      | Some (scheme, server, version, owner, name) \<Rightarrow>
          (let srv1 = srv\<lparr>URL := scheme @ ''://'' @ server, Version := version\<rparr>;
               (srv2, log1) = lookup_server (Servers config) version srv1;
               log2 = (if LocalName srv2 = [] \<or> Version srv2 = [] then [WarnIncomplete srv2] else [])
           in (True, srv2, ident\<lparr>Owner := owner, Name := name, Server := srv2\<rparr>, log1 @ log2)))"

subsection \<open>DownloadModel of a reference string\<close>

definition DownloadModel_url ::
  "collaborators \<Rightarrow> ClientConfig \<Rightarrow> string \<Rightarrow> string \<Rightarrow> Result \<times> string \<times> event list" where
  "DownloadModel_url ext config modelURL path =
     (case ParseModelURL config modelURL default_ServerConfig default_ModelIdentifier of
        (False, srv, ident, log0) \<Rightarrow> (FETCH_ERROR, path, log0)
      | (True, srv, ident, log0) \<Rightarrow>
          (let (result, log1) = DownloadModel ext srv ident
           in if Result_bool result
              then (let name = replaceAll_char (map tolower (Name ident)) CHR '' '' CHR ''_'';
                        owner = Owner ident
                    in (result,
                        joinPaths (joinPaths (joinPaths (CacheLocation config) ''models'') owner) name,
                        log0 @ log1))
              else (result, path, log0 @ log1)))"

section \<open>Example collaborators and inputs\<close>

definition ext_hit :: collaborators where
  "ext_hit = \<lparr>rest_Request = (\<lambda>m u v p q h d. \<lparr>statusCode = 200, data = ''zip''\<rparr>),
     iter_Create = (\<lambda>s p. [\<lparr>Owner = ''remote'', Name = p, Server = s\<rparr>]),
     cache_AllModels = [\<lparr>Owner = ''bob'', Name = ''beer'', Server = default_ServerConfig\<rparr>],
     cache_MatchingModels = (\<lambda>i. [i]),
     cache_SaveModel = (\<lambda>i d ov. False),
     json_ParseModel = (\<lambda>d s. \<lparr>Owner = d, Name = d, Server = s\<rparr>)\<rparr>"

definition ext_miss :: collaborators where
  "ext_miss = \<lparr>rest_Request = (\<lambda>m u v p q h d. \<lparr>statusCode = 404, data = []\<rparr>),
     iter_Create = (\<lambda>s p. []),
     cache_AllModels = [\<lparr>Owner = ''bob'', Name = ''beer'', Server = default_ServerConfig\<rparr>],
     cache_MatchingModels = (\<lambda>i. []),
     cache_SaveModel = (\<lambda>i d ov. True),
     json_ParseModel = (\<lambda>d s. \<lparr>Owner = d, Name = d, Server = s\<rparr>)\<rparr>"

definition ext_save :: collaborators where
  "ext_save = \<lparr>rest_Request = (\<lambda>m u v p q h d. \<lparr>statusCode = 200, data = ''zip''\<rparr>),
     iter_Create = (\<lambda>s p. []),
     cache_AllModels = [],
     cache_MatchingModels = (\<lambda>i. []),
     cache_SaveModel = (\<lambda>i d ov. True),
     json_ParseModel = (\<lambda>d s. \<lparr>Owner = d, Name = d, Server = s\<rparr>)\<rparr>"

definition srv_h :: ServerConfig where
  "srv_h = \<lparr>URL = ''https://h'', LocalName = ''fuel'', Version = ''1.0''\<rparr>"

definition id_beer :: ModelIdentifier where
  "id_beer = \<lparr>Owner = ''Bob'', Name = ''My Beer'', Server = srv_h\<rparr>"

definition ex_config :: ClientConfig where
  "ex_config = \<lparr>Servers = [\<lparr>URL = ''https://g'', LocalName = ''other'', Version = ''3''\<rparr>,
                             \<lparr>URL = ''https://h'', LocalName = ''fuel'', Version = ''1.0''\<rparr>,
                             \<lparr>URL = ''https://h'', LocalName = ''second'', Version = ''2.0''\<rparr>],
                 CacheLocation = ''/c''\<rparr>"

lemmas ex_defs = ext_hit_def ext_miss_def srv_h_def id_beer_def default_ServerConfig_def
  default_ModelIdentifier_def

lemmas regex_defs = regex_match_def kModelURLRegexStr_def kModelUniqueNameRegexStr_def lits_def
  slash_def scheme_cls_def seg_cls_def name_cls_def isalnum_def isspace_def

section \<open>Properties of the matcher\<close>

subsection \<open>Greedy splits\<close>

lemma nstart_simps [simp]:
  "nstart P []" "nstart P (x # xs) = (\<not> P x)"
  by (simp_all add: nstart_def)

lemma splits_nstart: "nstart P r \<Longrightarrow> splits P r = [([], r)]"
  by (cases r) simp_all

lemma splits_last:
  "splits P s = filter (\<lambda>(p, r). p \<noteq> []) (splits P s) @ [([], s)]"
proof (cases s)
  case Nil
  then show ?thesis by simp
next
  case (Cons x xs)
  have "filter (\<lambda>(p, r). p \<noteq> []) (map (\<lambda>(p, r). (x # p, r)) (splits P xs))
        = map (\<lambda>(p, r). (x # p, r)) (splits P xs)"
    by (induction "splits P xs") (auto simp: filter_map o_def split_def)
  with Cons show ?thesis by (simp add: filter_map o_def split_def)
qed

lemma set_splits:
  "set (splits P s) = {(p, r). s = p @ r \<and> (\<forall>x\<in>set p. P x)}"
proof (induction s)
  case Nil
  then show ?case by auto
next
  case (Cons y ys)
  show ?case
  proof (rule set_eqI, clarify)
    fix p r
    show "((p, r) \<in> set (splits P (y # ys))) = ((p, r) \<in> {(p, r). y # ys = p @ r \<and> (\<forall>x\<in>set p. P x)})"
      using Cons by (cases p) (auto simp: image_iff)
  qed
qed

lemma greedy_det:
  assumes "\<forall>q x xs. P x \<longrightarrow> f q (x # xs) = []"
    and "p \<noteq> []" and "\<forall>x\<in>set p. P x" and "nstart P r"
  shows "concat (map (\<lambda>(q, r). f q r) (filter (\<lambda>(q, r). q \<noteq> []) (splits P (p @ r)))) = f p r"
  using assms
proof (induction p arbitrary: f)
  case Nil
  then show ?case by simp
next
  case (Cons y p)
  have nonempty: "filter (\<lambda>(q, r). q \<noteq> []) (map (\<lambda>(q, r). (y # q, r)) xs)
        = map (\<lambda>(q, r). (y # q, r)) xs" for xs :: "(string \<times> string) list"
    by (induction xs) auto
  show ?case
  proof (cases "p = []")
    case True
    with Cons.prems show ?thesis by (simp add: splits_nstart)
  next
    case False
    have step: "concat (map (\<lambda>(q, r). f (y # q) r) (filter (\<lambda>(q, r). q \<noteq> []) (splits P (p @ r))))
                = f (y # p) r"
      using Cons.IH [of "\<lambda>q. f (y # q)"] Cons.prems False by simp
    obtain z zs where pz: "p = z # zs" using False by (cases p) auto
    have tail: "f [y] (p @ r) = []"
      using Cons.prems pz by simp
    have "concat (map (\<lambda>(q, r). f q r) (filter (\<lambda>(q, r). q \<noteq> []) (splits P ((y # p) @ r))))
          = concat (map (\<lambda>(q, r). f q r) (map (\<lambda>(q, r). (y # q, r)) (splits P (p @ r))))"
      using Cons.prems by (simp add: nonempty)
    also have "\<dots> = concat (map (\<lambda>(q, r). f (y # q) r) (splits P (p @ r)))"
      by (simp add: o_def split_def)
    also have "\<dots> = concat (map (\<lambda>(q, r). f (y # q) r)
                        (filter (\<lambda>(q, r). q \<noteq> []) (splits P (p @ r)) @ [([], p @ r)]))"
      using splits_last [of P "p @ r"] by simp
    also have "\<dots> = f (y # p) r"
      using step tail by simp
    finally show ?thesis .
  qed
qed


subsection \<open>Quantifiers that have one way to match\<close>

lemma run_CapPlus_det:
  assumes "rejects (atom_ok a) ts" and "p \<noteq> []" and "\<forall>x\<in>set p. atom_ok a x"
    and "nstart (atom_ok a) r"
  shows "run (CapPlus a # ts) b (p @ r) = map ((#) p) (run ts False r)"
  using greedy_det [of "atom_ok a" "\<lambda>q r. map ((#) q) (run ts False r)" p r] assms
  by (simp add: rejects_def)

lemma run_PlusN_det:
  assumes "rejects (atom_ok a) ts" and "p \<noteq> []" and "\<forall>x\<in>set p. atom_ok a x"
    and "nstart (atom_ok a) r"
  shows "run (PlusN a # ts) b (p @ r) = run ts False r"
  using greedy_det [of "atom_ok a" "\<lambda>q r. run ts False r" p r] assms
  by (simp add: rejects_def)

lemma run_StarN_det:
  assumes "rejects (atom_ok a) ts" and "\<forall>x\<in>set p. atom_ok a x" and "nstart (atom_ok a) r"
  shows "run (StarN a # ts) b (p @ r) = run ts (b \<and> p = []) r"
proof (cases "p = []")
  case True
  with assms show ?thesis by (simp add: splits_nstart)
next
  case False
  then obtain z zs where pz: "p = z # zs" by (cases p) auto
  have tail: "run ts b (p @ r) = []"
    using assms pz by (simp add: rejects_def)
  have "run (StarN a # ts) b (p @ r)
        = concat (map (\<lambda>(q, r). run ts (b \<and> q = []) r)
            (filter (\<lambda>(q, r). q \<noteq> []) (splits (atom_ok a) (p @ r)) @ [([], p @ r)]))"
    using splits_last [of "atom_ok a" "p @ r"] by simp
  also have "\<dots> = concat (map (\<lambda>(q, r). run ts (b \<and> q = []) r)
            (filter (\<lambda>(q, r). q \<noteq> []) (splits (atom_ok a) (p @ r))))"
    using tail by simp
  also have "\<dots> = concat (map (\<lambda>(q, r). run ts False r)
            (filter (\<lambda>(q, r). q \<noteq> []) (splits (atom_ok a) (p @ r))))"
    by (rule arg_cong [where f = concat], rule map_cong) auto
  also have "\<dots> = run ts False r"
    using greedy_det [of "atom_ok a" "\<lambda>q r. run ts False r" p r] assms False
    by (simp add: rejects_def)
  finally show ?thesis using False by simp
qed

lemma run_PlusN_nstart: "nstart (atom_ok a) r \<Longrightarrow> run (PlusN a # ts) b r = []"
  by (simp add: splits_nstart)

lemma run_CapPlus_nstart: "nstart (atom_ok a) r \<Longrightarrow> run (CapPlus a # ts) b r = []"
  by (simp add: splits_nstart)

lemma rejects_Nil: "rejects P []"
  by (simp add: rejects_def)

lemma rejects_Atom: "\<forall>x. P x \<longrightarrow> \<not> atom_ok a x \<Longrightarrow> rejects P (Atom a # ts)"
  by (simp add: rejects_def)

lemma rejects_PlusN: "\<forall>x. P x \<longrightarrow> \<not> atom_ok a x \<Longrightarrow> rejects P (PlusN a # ts)"
  by (simp add: rejects_def splits_nstart)

lemma rejects_CapPlus: "\<forall>x. P x \<longrightarrow> \<not> atom_ok a x \<Longrightarrow> rejects P (CapPlus a # ts)"
  by (simp add: rejects_def splits_nstart)

lemma rejects_StarN:
  "\<forall>x. P x \<longrightarrow> \<not> atom_ok a x \<Longrightarrow> rejects P ts \<Longrightarrow> rejects P (StarN a # ts)"
  by (simp add: rejects_def splits_nstart)

subsection \<open>The classes of the two patterns\<close>

lemma slash_ok [simp]: "atom_ok slash x = (x = CHR ''/'')"
  by (simp add: slash_def)

lemma seg_cls_ok [simp]: "atom_ok seg_cls x = (x \<noteq> CHR ''/'' \<and> \<not> isspace x)"
  by (auto simp: seg_cls_def)

lemma name_cls_ok [simp]: "atom_ok name_cls x = (x \<noteq> CHR ''/'')"
  by (auto simp: name_cls_def)

lemma scheme_cls_ok [simp]:
  "atom_ok scheme_cls x = (isalnum x \<or> x = CHR ''.'' \<or> x = CHR ''+'' \<or> x = CHR ''-'')"
  by (auto simp: scheme_cls_def)

lemma scheme_cls_colon: "\<not> atom_ok scheme_cls CHR '':''"
  by (simp add: isalnum_def)

lemma slashes_nstart: "slashes sl \<Longrightarrow> sl \<noteq> [] \<Longrightarrow> P CHR ''/'' = False \<Longrightarrow> nstart P (sl @ r)"
  by (cases sl) (simp_all add: slashes_def)

lemma name_ok_nstart: "name_ok p \<Longrightarrow> nstart (atom_ok slash) (p @ r)"
  by (cases p) (simp_all add: name_ok_def)

lemma segment_ok_name_ok: "segment_ok p \<Longrightarrow> name_ok p"
  by (auto simp: segment_ok_def name_ok_def list_all_iff)


subsection \<open>One step of the patterns on one component of a reference\<close>

lemma scheme_step:
  assumes "scheme_ok p"
  shows "run ([Bol, CapPlus scheme_cls] @ lits '':'' @ [Atom slash, Atom slash] @ ts) True
           (p @ ''://'' @ r) = map ((#) p) (run ts False r)"
proof -
  have rej: "rejects (atom_ok scheme_cls) (lits '':'' @ [Atom slash, Atom slash] @ ts)"
    unfolding lits_def using scheme_cls_colon by (auto intro!: rejects_Atom)
  have ns: "nstart (atom_ok scheme_cls) (''://'' @ r)"
    using scheme_cls_colon by simp
  have "run (CapPlus scheme_cls # lits '':'' @ [Atom slash, Atom slash] @ ts) True (p @ ''://'' @ r)
        = map ((#) p) (run (lits '':'' @ [Atom slash, Atom slash] @ ts) False (''://'' @ r))"
    using assms by (intro run_CapPlus_det rej ns) (auto simp: scheme_ok_def list_all_iff)
  then show ?thesis by (simp add: lits_def)
qed

lemma seg_step:
  assumes "segment_ok p" and "sl \<noteq> []" and "slashes sl" and "nstart (atom_ok slash) r"
    and "rejects (atom_ok slash) ts"
  shows "run (CapPlus seg_cls # PlusN slash # ts) b (p @ sl @ r) = map ((#) p) (run ts False r)"
proof -
  have "run (CapPlus seg_cls # PlusN slash # ts) b (p @ sl @ r)
        = map ((#) p) (run (PlusN slash # ts) False (sl @ r))"
    using assms
    by (intro run_CapPlus_det rejects_PlusN slashes_nstart)
       (auto simp: segment_ok_def list_all_iff)
  moreover have "run (PlusN slash # ts) False (sl @ r) = run ts False r"
    using assms by (intro run_PlusN_det) (auto simp: slashes_def list_all_iff)
  ultimately show ?thesis by simp
qed

lemma lits_seg:
  assumes "name_ok seg" and "sl \<noteq> []" and "slashes sl" and "CHR ''/'' \<notin> set w"
  shows "run (lits w @ PlusN slash # ts) b (seg @ sl @ r)
         = (if seg = w then run (PlusN slash # ts) False (sl @ r) else [])"
  using assms
proof (induction w arbitrary: seg b)
  case Nil
  then show ?case
    using run_PlusN_nstart [OF name_ok_nstart [of seg "sl @ r"]]
    by (auto simp: lits_def name_ok_def)
next
  case (Cons c w)
  obtain x seg' where seg: "seg = x # seg'"
    using Cons.prems by (cases seg) (auto simp: name_ok_def)
  obtain z zs where sl: "sl = z # zs" "z = CHR ''/''"
    using Cons.prems by (cases sl) (auto simp: slashes_def)
  show ?case
  proof (cases "x = c")
    case False
    then show ?thesis by (simp add: seg lits_def)
  next
    case True
    show ?thesis
    proof (cases "seg' = []")
      case True
      show ?thesis
      proof (cases w)
        case Nil
        with True \<open>x = c\<close> show ?thesis by (simp add: seg lits_def)
      next
        case (Cons c' w')
        with True \<open>x = c\<close> Cons.prems sl show ?thesis by (auto simp: seg lits_def)
      qed
    next
      case False
      then have "name_ok seg'"
        using Cons.prems by (simp add: seg name_ok_def)
      then have "run (lits w @ PlusN slash # ts) False (seg' @ sl @ r)
         = (if seg' = w then run (PlusN slash # ts) False (sl @ r) else [])"
        using Cons.IH [of seg' False] Cons.prems by simp
      with \<open>x = c\<close> show ?thesis by (simp add: seg lits_def)
    qed
  qed
qed

lemma models_step:
  assumes "name_ok seg" and "sl \<noteq> []" and "slashes sl" and "nstart (atom_ok slash) r"
    and "rejects (atom_ok slash) ts"
  shows "run (lits ''models'' @ PlusN slash # ts) b (seg @ sl @ r)
         = (if seg = ''models'' then run ts False r else [])"
proof -
  have "run (PlusN slash # ts) False (sl @ r) = run ts False r"
    using assms by (intro run_PlusN_det) (auto simp: slashes_def list_all_iff)
  then show ?thesis
    using lits_seg [OF assms(1-3), of "''models''" ts b r] by simp
qed

lemma name_step:
  assumes "name_ok p" and "slashes sl" and "nstart (atom_ok slash) r" and "sl \<noteq> [] \<or> r = []"
  shows "run [CapPlus name_cls, StarN slash] b (p @ sl @ r) = (if r = [] then [[p]] else [])"
proof -
  have ns: "nstart (atom_ok name_cls) (sl @ r)"
    using assms by (cases sl) (auto simp: slashes_def)
  have "run [CapPlus name_cls, StarN slash] b (p @ sl @ r)
        = map ((#) p) (run [StarN slash] False (sl @ r))"
    using assms ns
    by (intro run_CapPlus_det rejects_StarN rejects_Nil)
       (auto simp: name_ok_def list_all_iff)
  moreover have "run [StarN slash] False (sl @ r) = run [] (False \<and> sl = []) r"
    using assms by (intro run_StarN_det rejects_Nil) (auto simp: slashes_def list_all_iff)
  ultimately show ?thesis by simp
qed

lemma rejects_slash_seg: "rejects (atom_ok slash) (CapPlus seg_cls # ts)"
  by (intro rejects_CapPlus) simp

lemma rejects_slash_name: "rejects (atom_ok slash) (CapPlus name_cls # ts)"
  by (intro rejects_CapPlus) simp

lemma rejects_slash_models: "rejects (atom_ok slash) (lits ''models'' @ ts)"
  unfolding lits_def by (auto intro!: rejects_Atom)

lemma segment_ok_models: "segment_ok ''models''"
  by (simp add: segment_ok_def isspace_def)

lemma name_ok_models: "name_ok ''models''"
  by (simp add: name_ok_def)

lemma nstart_models: "nstart (atom_ok slash) (''models'' @ r)"
  by simp


subsection \<open>The two patterns on references given by their components\<close>

lemma url_regex_unfold:
  "kModelURLRegexStr = [Bol, CapPlus scheme_cls] @ lits '':'' @ [Atom slash, Atom slash] @
     CapPlus seg_cls # PlusN slash # CapPlus seg_cls # PlusN slash # CapPlus seg_cls # PlusN slash #
     lits ''models'' @ PlusN slash # [CapPlus name_cls, StarN slash]"
  by (simp add: kModelURLRegexStr_def)

lemma unique_regex_unfold:
  "kModelUniqueNameRegexStr = [Bol, CapPlus scheme_cls] @ lits '':'' @ [Atom slash, Atom slash] @
     CapPlus seg_cls # PlusN slash # CapPlus seg_cls # PlusN slash #
     lits ''models'' @ PlusN slash # [CapPlus name_cls, StarN slash]"
  by (simp add: kModelUniqueNameRegexStr_def)

lemma url_run_versioned:
  assumes "scheme_ok scheme" and "segment_ok host" and "segment_ok ver" and "segment_ok owner"
    and "name_ok name"
    and "slashes sl1" "sl1 \<noteq> []" and "slashes sl2" "sl2 \<noteq> []" and "slashes sl3" "sl3 \<noteq> []"
    and "slashes sl4" "sl4 \<noteq> []" and "slashes sl5"
    and "nstart (atom_ok slash) r" and "sl5 \<noteq> [] \<or> r = []"
  shows "run kModelURLRegexStr True
           (scheme @ ''://'' @ host @ sl1 @ ver @ sl2 @ owner @ sl3 @ ''models'' @ sl4 @ name @ sl5 @ r)
         = (if r = [] then [[scheme, host, ver, owner, name]] else [])"
proof -
  have n: "name_ok host" "name_ok owner" "name_ok ver"
    using assms by (auto intro: segment_ok_name_ok)
  let ?r5 = "name @ sl5 @ r"
  let ?r4 = "''models'' @ sl4 @ ?r5"
  let ?r3 = "owner @ sl3 @ ?r4"
  let ?r2 = "ver @ sl2 @ ?r3"
  let ?t5 = "[CapPlus name_cls, StarN slash]"
  let ?t4 = "lits ''models'' @ PlusN slash # ?t5"
  let ?t3 = "CapPlus seg_cls # PlusN slash # ?t4"
  let ?t2 = "CapPlus seg_cls # PlusN slash # ?t3"
  let ?t1 = "CapPlus seg_cls # PlusN slash # ?t2"
  have s0: "run ([Bol, CapPlus scheme_cls] @ lits '':'' @ [Atom slash, Atom slash] @ ?t1) True
              (scheme @ ''://'' @ host @ sl1 @ ?r2) = map ((#) scheme) (run ?t1 False (host @ sl1 @ ?r2))"
    by (rule scheme_step [OF assms(1)])
  have s1: "run ?t1 False (host @ sl1 @ ?r2) = map ((#) host) (run ?t2 False ?r2)"
    using assms n by (intro seg_step rejects_slash_seg name_ok_nstart)
  have s2: "run ?t2 False ?r2 = map ((#) ver) (run ?t3 False ?r3)"
    using assms n by (intro seg_step rejects_slash_seg name_ok_nstart)
  have s3: "run ?t3 False ?r3 = map ((#) owner) (run ?t4 False ?r4)"
    using assms n by (intro seg_step rejects_slash_models nstart_models)
  have s4: "run ?t4 False ?r4 = (if ''models'' = ''models'' then run ?t5 False ?r5 else [])"
    using assms n
    by (intro models_step rejects_slash_name name_ok_nstart name_ok_models)
  have s5: "run ?t5 False ?r5 = (if r = [] then [[name]] else [])"
    using assms n by (intro name_step)
  show ?thesis
    by (simp only: url_regex_unfold s0 s1 s2 s3 s4 s5) simp
qed

lemma unique_run_versioned:
  assumes "scheme_ok scheme" and "segment_ok host" and "segment_ok ver" and "segment_ok owner"
    and "name_ok name"
    and "slashes sl1" "sl1 \<noteq> []" and "slashes sl2" "sl2 \<noteq> []" and "slashes sl3" "sl3 \<noteq> []"
    and "slashes sl4" "sl4 \<noteq> []"
  shows "run kModelUniqueNameRegexStr True
           (scheme @ ''://'' @ host @ sl1 @ ver @ sl2 @ owner @ sl3 @ ''models'' @ sl4 @ name @ r)
         = []"
proof -
  have n: "name_ok host" "name_ok owner" "name_ok ver"
    using assms by (auto intro: segment_ok_name_ok)
  let ?r5 = "name @ r"
  let ?r4 = "''models'' @ sl4 @ ?r5"
  let ?r3 = "owner @ sl3 @ ?r4"
  let ?r2 = "ver @ sl2 @ ?r3"
  let ?t5 = "[CapPlus name_cls, StarN slash]"
  let ?t4 = "lits ''models'' @ PlusN slash # ?t5"
  let ?t3 = "CapPlus seg_cls # PlusN slash # ?t4"
  let ?t2 = "CapPlus seg_cls # PlusN slash # ?t3"
  have s0: "run ([Bol, CapPlus scheme_cls] @ lits '':'' @ [Atom slash, Atom slash] @ ?t2) True
              (scheme @ ''://'' @ host @ sl1 @ ?r2) = map ((#) scheme) (run ?t2 False (host @ sl1 @ ?r2))"
    by (rule scheme_step [OF assms(1)])
  have s1: "run ?t2 False (host @ sl1 @ ?r2) = map ((#) host) (run ?t3 False ?r2)"
    using assms n by (intro seg_step rejects_slash_seg name_ok_nstart)
  have s2: "run ?t3 False ?r2 = map ((#) ver) (run ?t4 False ?r3)"
    using assms n by (intro seg_step rejects_slash_models name_ok_nstart)
  have s3: "run ?t4 False ?r3 = (if owner = ''models'' then run ?t5 False ?r4 else [])"
    using assms n
    by (intro models_step rejects_slash_name nstart_models)
  have s4: "run ?t5 False ?r4 = (if ?r5 = [] then [[''models'']] else [])"
    using assms n
    by (intro name_step name_ok_nstart name_ok_models disjI1)
  have "?r5 \<noteq> []"
    using assms by (simp add: name_ok_def)
  then show ?thesis
    by (simp only: unique_regex_unfold s0 s1 s2 s3 s4) simp
qed

lemma unique_run_unique:
  assumes "scheme_ok scheme" and "segment_ok host" and "segment_ok owner" and "name_ok name"
    and "slashes sl1" "sl1 \<noteq> []" and "slashes sl2" "sl2 \<noteq> []" and "slashes sl3" "sl3 \<noteq> []"
    and "slashes sl4" and "nstart (atom_ok slash) r" and "sl4 \<noteq> [] \<or> r = []"
  shows "run kModelUniqueNameRegexStr True
           (scheme @ ''://'' @ host @ sl1 @ owner @ sl2 @ ''models'' @ sl3 @ name @ sl4 @ r)
         = (if r = [] then [[scheme, host, owner, name]] else [])"
proof -
  have n: "name_ok host" "name_ok owner"
    using assms by (auto intro: segment_ok_name_ok)
  let ?r5 = "name @ sl4 @ r"
  let ?r4 = "''models'' @ sl3 @ ?r5"
  let ?r3 = "owner @ sl2 @ ?r4"
  let ?t5 = "[CapPlus name_cls, StarN slash]"
  let ?t4 = "lits ''models'' @ PlusN slash # ?t5"
  let ?t3 = "CapPlus seg_cls # PlusN slash # ?t4"
  let ?t2 = "CapPlus seg_cls # PlusN slash # ?t3"
  have s0: "run ([Bol, CapPlus scheme_cls] @ lits '':'' @ [Atom slash, Atom slash] @ ?t2) True
              (scheme @ ''://'' @ host @ sl1 @ ?r3) = map ((#) scheme) (run ?t2 False (host @ sl1 @ ?r3))"
    by (rule scheme_step [OF assms(1)])
  have s1: "run ?t2 False (host @ sl1 @ ?r3) = map ((#) host) (run ?t3 False ?r3)"
    using assms n by (intro seg_step rejects_slash_seg name_ok_nstart)
  have s2: "run ?t3 False ?r3 = map ((#) owner) (run ?t4 False ?r4)"
    using assms n by (intro seg_step rejects_slash_models nstart_models)
  have s3: "run ?t4 False ?r4 = (if ''models'' = ''models'' then run ?t5 False ?r5 else [])"
    using assms n
    by (intro models_step rejects_slash_name name_ok_nstart name_ok_models)
  have s4: "run ?t5 False ?r5 = (if r = [] then [[name]] else [])"
    using assms n by (intro name_step)
  show ?thesis
    by (simp only: unique_regex_unfold s0 s1 s2 s3 s4) simp
qed

lemma url_run_unique_extra:
  assumes "scheme_ok scheme" and "segment_ok host" and "segment_ok owner" and "name_ok name"
    and "slashes sl1" "sl1 \<noteq> []" and "slashes sl2" "sl2 \<noteq> []" and "slashes sl3" "sl3 \<noteq> []"
    and "slashes sl4" "sl4 \<noteq> []" and "nstart (atom_ok slash) r" and "name \<noteq> ''models''"
  shows "run kModelURLRegexStr True
           (scheme @ ''://'' @ host @ sl1 @ owner @ sl2 @ ''models'' @ sl3 @ name @ sl4 @ r)
         = []"
proof -
  have n: "name_ok host" "name_ok owner"
    using assms by (auto intro: segment_ok_name_ok)
  let ?r5 = "name @ sl4 @ r"
  let ?r4 = "''models'' @ sl3 @ ?r5"
  let ?r3 = "owner @ sl2 @ ?r4"
  let ?t5 = "[CapPlus name_cls, StarN slash]"
  let ?t4 = "lits ''models'' @ PlusN slash # ?t5"
  let ?t3 = "CapPlus seg_cls # PlusN slash # ?t4"
  let ?t2 = "CapPlus seg_cls # PlusN slash # ?t3"
  let ?t1 = "CapPlus seg_cls # PlusN slash # ?t2"
  have s0: "run ([Bol, CapPlus scheme_cls] @ lits '':'' @ [Atom slash, Atom slash] @ ?t1) True
              (scheme @ ''://'' @ host @ sl1 @ ?r3) = map ((#) scheme) (run ?t1 False (host @ sl1 @ ?r3))"
    by (rule scheme_step [OF assms(1)])
  have s1: "run ?t1 False (host @ sl1 @ ?r3) = map ((#) host) (run ?t2 False ?r3)"
    using assms n by (intro seg_step rejects_slash_seg name_ok_nstart)
  have s2: "run ?t2 False ?r3 = map ((#) owner) (run ?t3 False ?r4)"
    using assms n by (intro seg_step rejects_slash_seg nstart_models)
  have s3: "run ?t3 False ?r4 = map ((#) ''models'') (run ?t4 False ?r5)"
    using assms n
    by (intro seg_step rejects_slash_models name_ok_nstart segment_ok_models)
  have s4: "run ?t4 False ?r5 = (if name = ''models'' then run ?t5 False r else [])"
    using assms n by (intro models_step rejects_slash_name)
  show ?thesis
    using assms(14) by (simp only: url_regex_unfold s0 s1 s2 s3 s4) simp
qed


subsection \<open>What a match says about the input\<close>

lemma in_run_Nil: "caps \<in> set (run [] b s) \<longleftrightarrow> caps = [] \<and> s = []"
  by simp

lemma in_run_Bol: "caps \<in> set (run (Bol # ts) b s) \<longleftrightarrow> b \<and> caps \<in> set (run ts b s)"
  by simp

lemma in_run_Atom:
  "caps \<in> set (run (Atom a # ts) b s) \<longleftrightarrow>
     (\<exists>x xs. s = x # xs \<and> atom_ok a x \<and> caps \<in> set (run ts False xs))"
  by (cases s) auto

lemma in_run_PlusN:
  "caps \<in> set (run (PlusN a # ts) b s) \<longleftrightarrow>
     (\<exists>p r. s = p @ r \<and> p \<noteq> [] \<and> (\<forall>x\<in>set p. atom_ok a x) \<and> caps \<in> set (run ts False r))"
  by (auto simp: set_splits)

lemma in_run_StarN:
  "caps \<in> set (run (StarN a # ts) b s) \<longleftrightarrow>
     (\<exists>p r. s = p @ r \<and> (\<forall>x\<in>set p. atom_ok a x) \<and> caps \<in> set (run ts (b \<and> p = []) r))"
  by (auto simp: set_splits)

lemma in_run_CapPlus:
  "caps \<in> set (run (CapPlus a # ts) b s) \<longleftrightarrow>
     (\<exists>p r cs. caps = p # cs \<and> s = p @ r \<and> p \<noteq> [] \<and> (\<forall>x\<in>set p. atom_ok a x)
        \<and> cs \<in> set (run ts False r))"
  by (auto simp: set_splits)

lemmas in_run = in_run_Nil in_run_Bol in_run_Atom in_run_PlusN in_run_StarN in_run_CapPlus

lemma url_sound:
  assumes "caps \<in> set (run kModelURLRegexStr True s)"
  shows "\<exists>scheme host ver owner name sl1 sl2 sl3 sl4 sl5.
           caps = [scheme, host, ver, owner, name] \<and>
           s = scheme @ ''://'' @ host @ sl1 @ ver @ sl2 @ owner @ sl3 @ ''models'' @ sl4 @ name @ sl5 \<and>
           scheme_ok scheme \<and> segment_ok host \<and> segment_ok ver \<and> segment_ok owner \<and> name_ok name \<and>
           slashes sl1 \<and> sl1 \<noteq> [] \<and> slashes sl2 \<and> sl2 \<noteq> [] \<and> slashes sl3 \<and> sl3 \<noteq> [] \<and>
           slashes sl4 \<and> sl4 \<noteq> [] \<and> slashes sl5"
  using assms
  apply (simp only: url_regex_unfold lits_def list.map append.simps in_run)
  apply (elim exE conjE)
  apply (simp add: scheme_ok_def segment_ok_def name_ok_def slashes_def list_all_iff)
  apply blast
  done

lemma unique_sound:
  assumes "caps \<in> set (run kModelUniqueNameRegexStr True s)"
  shows "\<exists>scheme host owner name sl1 sl2 sl3 sl4.
           caps = [scheme, host, owner, name] \<and>
           s = scheme @ ''://'' @ host @ sl1 @ owner @ sl2 @ ''models'' @ sl3 @ name @ sl4 \<and>
           scheme_ok scheme \<and> segment_ok host \<and> segment_ok owner \<and> name_ok name \<and>
           slashes sl1 \<and> sl1 \<noteq> [] \<and> slashes sl2 \<and> sl2 \<noteq> [] \<and> slashes sl3 \<and> sl3 \<noteq> [] \<and>
           slashes sl4"
  using assms
  apply (simp only: unique_regex_unfold lits_def list.map append.simps in_run)
  apply (elim exE conjE)
  apply (simp add: scheme_ok_def segment_ok_def name_ok_def slashes_def list_all_iff)
  apply blast
  done

subsection \<open>The two attempts of ParseModelURL\<close>

lemma parse_groups_None:
  "run kModelURLRegexStr True s = [] \<Longrightarrow> run kModelUniqueNameRegexStr True s = []
   \<Longrightarrow> parse_groups s = None"
  by (simp add: parse_groups_def regex_match_def)

lemma parse_groups_url:
  "run kModelURLRegexStr True s = [a, b, c, d, e] # rest \<Longrightarrow> parse_groups s = Some (a, b, c, d, e)"
  by (simp add: parse_groups_def regex_match_def)

lemma parse_groups_unique:
  "run kModelURLRegexStr True s = [] \<Longrightarrow> run kModelUniqueNameRegexStr True s = [a, b, c, d] # rest
   \<Longrightarrow> parse_groups s = Some (a, b, [], c, d)"
  by (simp add: parse_groups_def regex_match_def)

lemma parse_groups_cases:
  assumes "parse_groups s = Some g"
  shows "(\<exists>a b c d e rest. run kModelURLRegexStr True s = [a, b, c, d, e] # rest \<and> g = (a, b, c, d, e)) \<or>
         (\<exists>a b c d rest. run kModelUniqueNameRegexStr True s = [a, b, c, d] # rest \<and> g = (a, b, [], c, d))"
  using assms
  by (auto simp: parse_groups_def regex_match_def split: list.splits option.splits)

lemma parse_groups_shape:
  assumes "parse_groups s = Some (scheme, host, ver, owner, name)"
  shows "(\<exists>sl1 sl2 sl3 sl4 sl5.
            s = scheme @ ''://'' @ host @ sl1 @ ver @ sl2 @ owner @ sl3 @ ''models'' @ sl4 @ name @ sl5 \<and>
            scheme_ok scheme \<and> segment_ok host \<and> segment_ok ver \<and> segment_ok owner \<and> name_ok name \<and>
            slashes sl1 \<and> sl1 \<noteq> [] \<and> slashes sl2 \<and> sl2 \<noteq> [] \<and> slashes sl3 \<and> sl3 \<noteq> [] \<and>
            slashes sl4 \<and> sl4 \<noteq> [] \<and> slashes sl5) \<or>
         (ver = [] \<and> (\<exists>sl1 sl2 sl3 sl4.
            s = scheme @ ''://'' @ host @ sl1 @ owner @ sl2 @ ''models'' @ sl3 @ name @ sl4 \<and>
            scheme_ok scheme \<and> segment_ok host \<and> segment_ok owner \<and> name_ok name \<and>
            slashes sl1 \<and> sl1 \<noteq> [] \<and> slashes sl2 \<and> sl2 \<noteq> [] \<and> slashes sl3 \<and> sl3 \<noteq> [] \<and>
            slashes sl4))"
  using parse_groups_cases [OF assms]
proof (elim disjE exE conjE)
  fix a b c d e rest
  assume r: "run kModelURLRegexStr True s = [a, b, c, d, e] # rest"
    and g: "(scheme, host, ver, owner, name) = (a, b, c, d, e)"
  from r have "[a, b, c, d, e] \<in> set (run kModelURLRegexStr True s)" by simp
  from url_sound [OF this] g show ?thesis by (intro disjI1) auto
next
  fix a b c d rest
  assume r: "run kModelUniqueNameRegexStr True s = [a, b, c, d] # rest"
    and g: "(scheme, host, ver, owner, name) = (a, b, [], c, d)"
  from r have "[a, b, c, d] \<in> set (run kModelUniqueNameRegexStr True s)" by simp
  from unique_sound [OF this] g show ?thesis by (intro disjI2) auto
qed

section \<open>Properties of the fetch operations\<close>

text \<open>
  C1. Models with a server and an identifier asks the cache for the matching models
  first. When the cache yields a match, that iterator is returned and nothing remote is
  called; when it yields none, the result is the remote iterator created for the path
  owner/models/name.
\<close>

theorem Models2_cache_first:
  "(\<exists>rest. snd (Models2 ext server ident) = CacheMatchingModels ident # rest) \<and>
   (ModelIter_bool (cache_MatchingModels ext ident) \<longrightarrow>
      fst (Models2 ext server ident) = cache_MatchingModels ext ident \<and>
      filter remote (snd (Models2 ext server ident)) = []) \<and>
   (\<not> ModelIter_bool (cache_MatchingModels ext ident) \<longrightarrow>
      fst (Models2 ext server ident) =
        iter_Create ext server (Owner ident @ ''/models/'' @ Name ident) \<and>
      filter remote (snd (Models2 ext server ident)) =
        [IterCreate server (Owner ident @ ''/models/'' @ Name ident)])"
  by (simp add: Models2_def Let_def joinPaths_def)

theorem Models2_cache_first_witness:
  "ModelIter_bool (cache_MatchingModels ext_hit id_beer) \<and>
   Models2 ext_hit srv_h id_beer = ([id_beer], [CacheMatchingModels id_beer]) \<and>
   filter remote (snd (Models2 ext_hit srv_h id_beer)) = [] \<and>
   \<not> ModelIter_bool (cache_MatchingModels ext_miss id_beer) \<and>
   fst (Models2 ext_miss srv_h id_beer) = iter_Create ext_miss srv_h ''Bob/models/My Beer'' \<and>
   filter remote (snd (Models2 ext_miss srv_h id_beer)) = [IterCreate srv_h ''Bob/models/My Beer'']"
  using Models2_cache_first [of ext_hit srv_h id_beer]
    Models2_cache_first [of ext_miss srv_h id_beer]
  by (simp add: ex_defs ModelIter_bool_def Models2_def joinPaths_def)

text \<open>
  C2. DownloadModel of a server and an identifier reports FETCH_ERROR when the GET for
  owner/models/name.zip answers a status other than 200, and then the cache is not
  written; it reports FETCH_ERROR as well when the status is 200 and SaveModel, called
  with the overwrite flag set, returns false.
\<close>

theorem DownloadModel_errors:
  "(let resp = rest_Request ext GET (URL server) (Version server)
                 (Owner ident @ ''/models/'' @ Name ident @ ''.zip'') [] [] []
    in (statusCode resp \<noteq> 200 \<longrightarrow>
          fst (DownloadModel ext server ident) = FETCH_ERROR \<and>
          filter cache_write (snd (DownloadModel ext server ident)) = []) \<and>
       (statusCode resp = 200 \<and> \<not> cache_SaveModel ext ident (data resp) True \<longrightarrow>
          fst (DownloadModel ext server ident) = FETCH_ERROR \<and>
          filter cache_write (snd (DownloadModel ext server ident)) =
            [CacheSaveModel ident (data resp) True]))"
  by (simp add: DownloadModel_def Let_def joinPaths_def)

theorem DownloadModel_errors_witness:
  "statusCode (rest_Request ext_miss GET ''https://h'' ''1.0'' ''Bob/models/My Beer.zip'' [] [] []) \<noteq> 200 \<and>
   DownloadModel ext_miss srv_h id_beer =
     (FETCH_ERROR, [RestRequest GET ''https://h'' ''1.0'' ''Bob/models/My Beer.zip'' [] [] []]) \<and>
   statusCode (rest_Request ext_hit GET ''https://h'' ''1.0'' ''Bob/models/My Beer.zip'' [] [] []) = 200 \<and>
   \<not> cache_SaveModel ext_hit id_beer ''zip'' True \<and>
   DownloadModel ext_hit srv_h id_beer =
     (FETCH_ERROR, [RestRequest GET ''https://h'' ''1.0'' ''Bob/models/My Beer.zip'' [] [] [],
                    CacheSaveModel id_beer ''zip'' True])"
  using DownloadModel_errors [of ext_miss srv_h id_beer]
    DownloadModel_errors [of ext_hit srv_h id_beer]
  by (simp add: ex_defs DownloadModel_def joinPaths_def)

text \<open>
  C5. Models with a server alone returns the remote iterator over models when that
  iterator is usable; otherwise it reports no error and returns the iterator over all
  models of the cache, whatever the server.
\<close>

theorem Models1_fallback:
  "(ModelIter_bool (iter_Create ext server ''models'') \<longrightarrow>
      Models1 ext server = (iter_Create ext server ''models'', [IterCreate server ''models''])) \<and>
   (\<not> ModelIter_bool (iter_Create ext server ''models'') \<longrightarrow>
      Models1 ext server =
        (cache_AllModels ext, [IterCreate server ''models'', WarnFetchFailed, CacheAllModels]))"
  by (simp add: Models1_def Let_def)

theorem Models1_fallback_witness:
  "ModelIter_bool (iter_Create ext_hit srv_h ''models'') \<and>
   fst (Models1 ext_hit srv_h) = [\<lparr>Owner = ''remote'', Name = ''models'', Server = srv_h\<rparr>] \<and>
   \<not> ModelIter_bool (iter_Create ext_miss srv_h ''models'') \<and>
   fst (Models1 ext_miss srv_h) = [\<lparr>Owner = ''bob'', Name = ''beer'', Server = default_ServerConfig\<rparr>]"
  using Models1_fallback [of ext_hit srv_h] Models1_fallback [of ext_miss srv_h]
  by (simp add: ex_defs ModelIter_bool_def)

text \<open>
  C6. ModelDetails issues one GET, for url/version/owner/models/name, and nothing else.
  On status 200 the output model is the decoded body and the result is FETCH; on any
  other status the result is FETCH_ERROR and the output model is the one passed in.
\<close>

theorem ModelDetails_one_request:
  "(let req = RestRequest GET (URL server) (Version server)
                (Owner ident @ ''/models/'' @ Name ident) [] [] [];
        resp = rest_Request ext GET (URL server) (Version server)
                 (Owner ident @ ''/models/'' @ Name ident) [] [] []
    in request_target req =
         URL server @ ''/'' @ Version server @ ''/'' @ Owner ident @ ''/models/'' @ Name ident \<and>
       snd (snd (ModelDetails ext server ident model)) = [req] \<and>
       (statusCode resp = 200 \<longrightarrow>
          fst (ModelDetails ext server ident model) = FETCH \<and>
          fst (snd (ModelDetails ext server ident model)) =
            json_ParseModel ext (data resp) server) \<and>
       (statusCode resp \<noteq> 200 \<longrightarrow>
          fst (ModelDetails ext server ident model) = FETCH_ERROR \<and>
          fst (snd (ModelDetails ext server ident model)) = model))"
  by (simp add: ModelDetails_def Let_def joinPaths_def request_target_def)

theorem ModelDetails_one_request_witness:
  "statusCode (rest_Request ext_hit GET ''https://h'' ''1.0'' ''Bob/models/My Beer'' [] [] []) = 200 \<and>
   ModelDetails ext_hit srv_h id_beer default_ModelIdentifier =
     (FETCH, \<lparr>Owner = ''zip'', Name = ''zip'', Server = srv_h\<rparr>,
      [RestRequest GET ''https://h'' ''1.0'' ''Bob/models/My Beer'' [] [] []]) \<and>
   statusCode (rest_Request ext_miss GET ''https://h'' ''1.0'' ''Bob/models/My Beer'' [] [] []) \<noteq> 200 \<and>
   ModelDetails ext_miss srv_h id_beer default_ModelIdentifier =
     (FETCH_ERROR, default_ModelIdentifier,
      [RestRequest GET ''https://h'' ''1.0'' ''Bob/models/My Beer'' [] [] []])"
  using ModelDetails_one_request [of srv_h id_beer ext_hit default_ModelIdentifier]
    ModelDetails_one_request [of srv_h id_beer ext_miss default_ModelIdentifier]
  by (simp add: ex_defs ModelDetails_def joinPaths_def)

section \<open>Properties of ParseModelURL and of DownloadModel of a reference\<close>

lemma lookup_server_find:
  "find (\<lambda>s. URL s = URL srv) servers = Some e \<Longrightarrow> fst (lookup_server servers version srv) = e"
  by (induction servers) (auto split: if_splits)

text \<open>
  C3. When a reference is accepted by one of the two grammars and the configured
  servers hold an entry whose url equals the parsed scheme://host, ParseModelURL replaces
  the server by the first such entry: url, version and local name are the entry's, and
  the version of the reference is not applied, present or not.
\<close>

theorem ParseModelURL_registry_wins:
  assumes "parse_groups modelURL = Some (scheme, server, version, owner, name)"
    and "find (\<lambda>s. URL s = scheme @ ''://'' @ server) (Servers config) = Some e"
  shows "fst (ParseModelURL config modelURL srv ident) \<and>
         fst (snd (ParseModelURL config modelURL srv ident)) = e \<and>
         Server (fst (snd (snd (ParseModelURL config modelURL srv ident)))) = e \<and>
         URL (fst (snd (ParseModelURL config modelURL srv ident))) = URL e \<and>
         Version (fst (snd (ParseModelURL config modelURL srv ident))) = Version e \<and>
         LocalName (fst (snd (ParseModelURL config modelURL srv ident))) = LocalName e"
proof -
  let ?srv1 = "srv\<lparr>URL := scheme @ ''://'' @ server, Version := version\<rparr>"
  have "find (\<lambda>s. URL s = URL ?srv1) (Servers config) = Some e"
    using assms(2) by simp
  then have "fst (lookup_server (Servers config) version ?srv1) = e"
    by (rule lookup_server_find)
  then show ?thesis
    using assms(1) by (simp add: ParseModelURL_def Let_def split_def)
qed

theorem ParseModelURL_registry_wins_witness:
  "parse_groups ''https://h/2.0/Bob/models/My Beer'' = Some (''https'', ''h'', ''2.0'', ''Bob'', ''My Beer'') \<and>
   find (\<lambda>s. URL s = ''https'' @ ''://'' @ ''h'') (Servers ex_config) =
     Some \<lparr>URL = ''https://h'', LocalName = ''fuel'', Version = ''1.0''\<rparr> \<and>
   fst (snd (ParseModelURL ex_config ''https://h/2.0/Bob/models/My Beer'' default_ServerConfig
     default_ModelIdentifier)) = \<lparr>URL = ''https://h'', LocalName = ''fuel'', Version = ''1.0''\<rparr>"
proof -
  have p: "parse_groups ''https://h/2.0/Bob/models/My Beer'' = Some (''https'', ''h'', ''2.0'', ''Bob'', ''My Beer'')"
    by (simp add: parse_groups_def regex_defs)
  have f: "find (\<lambda>s. URL s = ''https'' @ ''://'' @ ''h'') (Servers ex_config) =
     Some \<lparr>URL = ''https://h'', LocalName = ''fuel'', Version = ''1.0''\<rparr>"
    by (simp add: ex_config_def)
  show ?thesis
    using ParseModelURL_registry_wins [OF p f, of default_ServerConfig default_ModelIdentifier] p f
    by simp
qed

text \<open>
  C4. For a well-formed versioned URL scheme://host/version/owner/models/name, with
  trailing slashes or none, ParseModelURL succeeds and the five captured components are
  the five components the URL was made of.
\<close>

theorem ParseModelURL_versioned_roundtrip:
  assumes "scheme_ok scheme" and "segment_ok host" and "segment_ok version" and "segment_ok owner"
    and "name_ok name" and "slashes trail"
  shows "parse_groups (scheme @ ''://'' @ host @ ''/'' @ version @ ''/'' @ owner @ ''/models/'' @ name @ trail)
           = Some (scheme, host, version, owner, name) \<and>
         fst (ParseModelURL config
           (scheme @ ''://'' @ host @ ''/'' @ version @ ''/'' @ owner @ ''/models/'' @ name @ trail)
           srv ident)"
proof -
  have "run kModelURLRegexStr True
          (scheme @ ''://'' @ host @ ''/'' @ version @ ''/'' @ owner @ ''/'' @ ''models'' @ ''/'' @ name @ trail @ [])
        = (if ([]::string) = [] then [[scheme, host, version, owner, name]] else [])"
    using assms by (intro url_run_versioned) (simp_all add: slashes_def)
  then have "run kModelURLRegexStr True
          (scheme @ ''://'' @ host @ ''/'' @ version @ ''/'' @ owner @ ''/models/'' @ name @ trail)
        = [[scheme, host, version, owner, name]]"
    by simp
  then have "parse_groups (scheme @ ''://'' @ host @ ''/'' @ version @ ''/'' @ owner @ ''/models/'' @ name @ trail)
           = Some (scheme, host, version, owner, name)"
    by (rule parse_groups_url)
  then show ?thesis
    by (simp add: ParseModelURL_def Let_def split_def)
qed

theorem ParseModelURL_versioned_roundtrip_witness:
  "scheme_ok ''git+ssh'' \<and> segment_ok ''api.fuel.org'' \<and> segment_ok ''1.0'' \<and> segment_ok ''Bob'' \<and>
   name_ok ''My Beer'' \<and> slashes ''//'' \<and>
   parse_groups ''git+ssh://api.fuel.org/1.0/Bob/models/My Beer//''
     = Some (''git+ssh'', ''api.fuel.org'', ''1.0'', ''Bob'', ''My Beer'')"
proof -
  have h: "scheme_ok ''git+ssh''" "segment_ok ''api.fuel.org''" "segment_ok ''1.0''" "segment_ok ''Bob''"
    "name_ok ''My Beer''" "slashes ''//''"
    by (simp_all add: scheme_ok_def segment_ok_def name_ok_def slashes_def isalnum_def isspace_def)
  show ?thesis
    using ParseModelURL_versioned_roundtrip [OF h, of ex_config default_ServerConfig default_ModelIdentifier] h
    by simp
qed

text \<open>
  C8. An input that matches neither grammar makes ParseModelURL return false, and the
  server and the identifier passed in come back as they were.
\<close>

theorem ParseModelURL_no_match:
  assumes "regex_match kModelURLRegexStr modelURL = None"
    and "regex_match kModelUniqueNameRegexStr modelURL = None"
  shows "ParseModelURL config modelURL srv ident = (False, srv, ident, [])"
  using assms by (simp add: ParseModelURL_def parse_groups_def)

theorem ParseModelURL_no_match_witness:
  "regex_match kModelURLRegexStr ''https://h/1.0/Bob/Beer'' = None \<and>
   regex_match kModelUniqueNameRegexStr ''https://h/1.0/Bob/Beer'' = None \<and>
   ParseModelURL ex_config ''https://h/1.0/Bob/Beer'' srv_h id_beer = (False, srv_h, id_beer, [])"
proof -
  have a: "regex_match kModelURLRegexStr ''https://h/1.0/Bob/Beer'' = None"
    by (simp add: regex_defs)
  have b: "regex_match kModelUniqueNameRegexStr ''https://h/1.0/Bob/Beer'' = None"
    by (simp add: regex_defs)
  show ?thesis
    using ParseModelURL_no_match [OF a b, of ex_config srv_h id_beer] a b by simp
qed

text \<open>
  C7. When DownloadModel of a reference string succeeds, the path it yields is
  cacheLocation/models/owner/normalizedName: the owner as parsed, the name as parsed in
  lower case with every space replaced by an underscore. The collaborators play no part
  in it.
\<close>

theorem DownloadModel_url_path:
  assumes "Result_bool (fst (DownloadModel_url ext config modelURL path))"
  shows "\<exists>scheme host version owner name.
           parse_groups modelURL = Some (scheme, host, version, owner, name) \<and>
           fst (snd (DownloadModel_url ext config modelURL path)) =
             CacheLocation config @ ''/models/'' @ owner @ ''/'' @
               replaceAll_char (map tolower name) CHR '' '' CHR ''_''"
proof (cases "parse_groups modelURL")
  case None
  with assms show ?thesis
    by (simp add: DownloadModel_url_def ParseModelURL_def)
next
  case (Some g)
  obtain scheme host version owner name where g: "g = (scheme, host, version, owner, name)"
    by (cases g) auto
  show ?thesis
    using assms Some g
    by (auto simp: DownloadModel_url_def ParseModelURL_def Let_def split_def joinPaths_def
        split: if_splits)
qed

lemma normalized_my_beer: "replaceAll_char (map tolower ''My Beer'') CHR '' '' CHR ''_'' = ''my_beer''"
  by code_simp

theorem DownloadModel_url_path_witness:
  "Result_bool (fst (DownloadModel_url ext_save ex_config ''https://h/2.0/Bob/models/My Beer'' [])) \<and>
   fst (snd (DownloadModel_url ext_save ex_config ''https://h/2.0/Bob/models/My Beer'' []))
     = ''/c/models/Bob/my_beer''"
proof -
  have r: "DownloadModel_url ext_save ex_config ''https://h/2.0/Bob/models/My Beer'' [] =
    (FETCH, ''/c/models/Bob/my_beer'',
     [WarnVersion ''2.0'' \<lparr>URL = ''https://h'', LocalName = ''fuel'', Version = ''1.0''\<rparr>,
      RestRequest GET ''https://h'' ''1.0'' ''Bob/models/My Beer.zip'' [] [] [],
      CacheSaveModel \<lparr>Owner = ''Bob'', Name = ''My Beer'',
        Server = \<lparr>URL = ''https://h'', LocalName = ''fuel'', Version = ''1.0''\<rparr>\<rparr> ''zip'' True])"
    using normalized_my_beer
    by (simp add: DownloadModel_url_def ParseModelURL_def parse_groups_def regex_defs ex_config_def
        ext_save_def DownloadModel_def joinPaths_def
        default_ServerConfig_def default_ModelIdentifier_def)
  then have h: "Result_bool (fst (DownloadModel_url ext_save ex_config ''https://h/2.0/Bob/models/My Beer'' []))"
    by simp
  show ?thesis
    using DownloadModel_url_path [OF h] h r by simp
qed

text \<open>
  C9. Whenever ParseModelURL returns true, owner and name of the identifier are
  non-empty and are the very characters of the input on either side of the models
  segment: no change of case, no replacement of spaces.
\<close>

theorem ParseModelURL_owner_name_verbatim:
  assumes "ParseModelURL config modelURL srv ident = (True, srv', ident', log)"
  shows "Owner ident' \<noteq> [] \<and> Name ident' \<noteq> [] \<and>
         segment_ok (Owner ident') \<and> name_ok (Name ident') \<and>
         (\<exists>pre sl1 sl2 trail.
            modelURL = pre @ Owner ident' @ sl1 @ ''models'' @ sl2 @ Name ident' @ trail \<and>
            slashes sl1 \<and> sl1 \<noteq> [] \<and> slashes sl2 \<and> sl2 \<noteq> [] \<and> slashes trail)"
proof (cases "parse_groups modelURL")
  case None
  with assms show ?thesis by (simp add: ParseModelURL_def)
next
  case (Some g)
  obtain scheme host version owner name where g: "g = (scheme, host, version, owner, name)"
    by (cases g) auto
  have id: "Owner ident' = owner" "Name ident' = name"
    using assms Some g by (auto simp: ParseModelURL_def Let_def split_def)
  have shape: "segment_ok owner \<and> name_ok name \<and>
         (\<exists>pre sl1 sl2 trail.
            modelURL = pre @ owner @ sl1 @ ''models'' @ sl2 @ name @ trail \<and>
            slashes sl1 \<and> sl1 \<noteq> [] \<and> slashes sl2 \<and> sl2 \<noteq> [] \<and> slashes trail)"
    using parse_groups_shape [OF Some [unfolded g]]
  proof (elim disjE exE conjE)
    fix sl1 sl2 sl3 sl4 sl5
    assume "modelURL = scheme @ ''://'' @ host @ sl1 @ version @ sl2 @ owner @ sl3 @ ''models'' @ sl4 @ name @ sl5"
      and "segment_ok owner" "name_ok name" "slashes sl3" "sl3 \<noteq> []" "slashes sl4" "sl4 \<noteq> []" "slashes sl5"
    then have "modelURL = (scheme @ ''://'' @ host @ sl1 @ version @ sl2) @ owner @ sl3 @ ''models'' @ sl4 @ name @ sl5
       \<and> slashes sl3 \<and> sl3 \<noteq> [] \<and> slashes sl4 \<and> sl4 \<noteq> [] \<and> slashes sl5"
      by simp
    then show ?thesis using \<open>segment_ok owner\<close> \<open>name_ok name\<close> by blast
  next
    fix sl1 sl2 sl3 sl4
    assume "modelURL = scheme @ ''://'' @ host @ sl1 @ owner @ sl2 @ ''models'' @ sl3 @ name @ sl4"
      and "segment_ok owner" "name_ok name" "slashes sl2" "sl2 \<noteq> []" "slashes sl3" "sl3 \<noteq> []" "slashes sl4"
    then have "modelURL = (scheme @ ''://'' @ host @ sl1) @ owner @ sl2 @ ''models'' @ sl3 @ name @ sl4
       \<and> slashes sl2 \<and> sl2 \<noteq> [] \<and> slashes sl3 \<and> sl3 \<noteq> [] \<and> slashes sl4"
      by simp
    then show ?thesis using \<open>segment_ok owner\<close> \<open>name_ok name\<close> by blast
  qed
  moreover from shape have "owner \<noteq> []" "name \<noteq> []"
    by (simp_all add: segment_ok_def name_ok_def)
  ultimately show ?thesis
    by (simp add: id)
qed

theorem ParseModelURL_owner_name_verbatim_witness:
  "ParseModelURL ex_config ''https://x/BobZ/models/My Beer/'' default_ServerConfig default_ModelIdentifier
     = (True, \<lparr>URL = ''https://x'', LocalName = [], Version = []\<rparr>,
        \<lparr>Owner = ''BobZ'', Name = ''My Beer'', Server = \<lparr>URL = ''https://x'', LocalName = [], Version = []\<rparr>\<rparr>,
        [WarnIncomplete \<lparr>URL = ''https://x'', LocalName = [], Version = []\<rparr>]) \<and>
   Owner \<lparr>Owner = ''BobZ'', Name = ''My Beer'', Server = \<lparr>URL = ''https://x'', LocalName = [], Version = []\<rparr>\<rparr> \<noteq> [] \<and>
   name_ok ''My Beer''"
proof -
  have r: "ParseModelURL ex_config ''https://x/BobZ/models/My Beer/'' default_ServerConfig default_ModelIdentifier
     = (True, \<lparr>URL = ''https://x'', LocalName = [], Version = []\<rparr>,
        \<lparr>Owner = ''BobZ'', Name = ''My Beer'', Server = \<lparr>URL = ''https://x'', LocalName = [], Version = []\<rparr>\<rparr>,
        [WarnIncomplete \<lparr>URL = ''https://x'', LocalName = [], Version = []\<rparr>])"
    by (simp add: ParseModelURL_def parse_groups_def regex_defs ex_config_def Let_def
        default_ServerConfig_def default_ModelIdentifier_def)
  show ?thesis
    using ParseModelURL_owner_name_verbatim [OF r] r by simp
qed

text \<open>
  C10, as amended. Each grammar has to match the whole input. When ParseModelURL accepts
  a reference, the same reference followed by slashes and a further non-empty segment is
  rejected, and the outputs are left as they were; the one exception is an unversioned
  reference whose name is the word models, which with a further segment reads as a
  versioned URL.
\<close>

theorem ParseModelURL_rejects_extra_segment:
  assumes "parse_groups w = Some (scheme, host, version, owner, name)"
    and "version = [] \<longrightarrow> name \<noteq> ''models''"
    and "slashes sl" and "sl \<noteq> []" and "extra \<noteq> []" and "hd extra \<noteq> CHR ''/''"
  shows "ParseModelURL config (w @ sl @ extra) srv ident = (False, srv, ident, [])"
proof -
  have ns: "nstart (atom_ok slash) extra"
    using assms(5,6) by (cases extra) simp_all
  have "run kModelURLRegexStr True (w @ sl @ extra) = [] \<and>
        run kModelUniqueNameRegexStr True (w @ sl @ extra) = []"
    using parse_groups_shape [OF assms(1)]
  proof (elim disjE exE conjE)
    fix sl1 sl2 sl3 sl4 sl5
    assume w: "w = scheme @ ''://'' @ host @ sl1 @ version @ sl2 @ owner @ sl3 @ ''models'' @ sl4 @ name @ sl5"
      and ok: "scheme_ok scheme" "segment_ok host" "segment_ok version" "segment_ok owner" "name_ok name"
        "slashes sl1" "sl1 \<noteq> []" "slashes sl2" "sl2 \<noteq> []" "slashes sl3" "sl3 \<noteq> []"
        "slashes sl4" "sl4 \<noteq> []" "slashes sl5"
    have sl': "slashes (sl5 @ sl)" "sl5 @ sl \<noteq> [] \<or> extra = []"
      using ok assms(3,4) by (simp_all add: slashes_def)
    have "run kModelURLRegexStr True
            (scheme @ ''://'' @ host @ sl1 @ version @ sl2 @ owner @ sl3 @ ''models'' @ sl4 @ name @ (sl5 @ sl) @ extra)
          = (if extra = [] then [[scheme, host, version, owner, name]] else [])"
      using ok sl' ns by (intro url_run_versioned)
    moreover have "run kModelUniqueNameRegexStr True
            (scheme @ ''://'' @ host @ sl1 @ version @ sl2 @ owner @ sl3 @ ''models'' @ sl4 @ name @ (sl5 @ sl @ extra))
          = []"
      using ok by (intro unique_run_versioned)
    ultimately show ?thesis
      using assms(5) by (simp add: w)
  next
    fix sl1 sl2 sl3 sl4
    assume v: "version = []"
      and w: "w = scheme @ ''://'' @ host @ sl1 @ owner @ sl2 @ ''models'' @ sl3 @ name @ sl4"
      and ok: "scheme_ok scheme" "segment_ok host" "segment_ok owner" "name_ok name"
        "slashes sl1" "sl1 \<noteq> []" "slashes sl2" "sl2 \<noteq> []" "slashes sl3" "sl3 \<noteq> []" "slashes sl4"
    have sl': "slashes (sl4 @ sl)" "sl4 @ sl \<noteq> []" "sl4 @ sl \<noteq> [] \<or> extra = []"
      using ok assms(3,4) by (simp_all add: slashes_def)
    have nm: "name \<noteq> ''models''"
      using assms(2) v by simp
    have "run kModelURLRegexStr True
            (scheme @ ''://'' @ host @ sl1 @ owner @ sl2 @ ''models'' @ sl3 @ name @ (sl4 @ sl) @ extra)
          = []"
      using ok sl' ns nm by (intro url_run_unique_extra)
    moreover have "run kModelUniqueNameRegexStr True
            (scheme @ ''://'' @ host @ sl1 @ owner @ sl2 @ ''models'' @ sl3 @ name @ (sl4 @ sl) @ extra)
          = (if extra = [] then [[scheme, host, owner, name]] else [])"
      using ok sl' ns by (intro unique_run_unique)
    ultimately show ?thesis
      using assms(5) by (simp add: w)
  qed
  then have "parse_groups (w @ sl @ extra) = None"
    by (simp add: parse_groups_None)
  then show ?thesis
    by (simp add: ParseModelURL_def)
qed

theorem ParseModelURL_rejects_extra_segment_witness:
  "parse_groups ''s://h/1.0/Bob/models/Beer'' = Some (''s'', ''h'', ''1.0'', ''Bob'', ''Beer'') \<and>
   ParseModelURL ex_config ''s://h/1.0/Bob/models/Beer/extra'' srv_h id_beer = (False, srv_h, id_beer, []) \<and>
   parse_groups ''s://h/Bob/models/Beer'' = Some (''s'', ''h'', [], ''Bob'', ''Beer'') \<and>
   ParseModelURL ex_config ''s://h/Bob/models/Beer//x/'' srv_h id_beer = (False, srv_h, id_beer, [])"
proof -
  have p1: "parse_groups ''s://h/1.0/Bob/models/Beer'' = Some (''s'', ''h'', ''1.0'', ''Bob'', ''Beer'')"
    by (simp add: parse_groups_def regex_defs)
  have p2: "parse_groups ''s://h/Bob/models/Beer'' = Some (''s'', ''h'', [], ''Bob'', ''Beer'')"
    by (simp add: parse_groups_def regex_defs)
  have a: "''1.0'' = [] \<longrightarrow> ''Beer'' \<noteq> ''models''" "[] = [] \<longrightarrow> ''Beer'' \<noteq> ''models''"
    "slashes ''/''" "''/'' \<noteq> []" "''extra'' \<noteq> []" "hd ''extra'' \<noteq> CHR ''/''"
    "slashes ''//''" "''//'' \<noteq> []" "''x/'' \<noteq> []" "hd ''x/'' \<noteq> CHR ''/''"
    by (simp_all add: slashes_def)
  show ?thesis
    using ParseModelURL_rejects_extra_segment [OF p1 a(1) a(3-6), of ex_config srv_h id_beer]
      ParseModelURL_rejects_extra_segment [OF p2 a(2) a(7-10), of ex_config srv_h id_beer] p1 p2
    by simp
qed

text \<open>
  The exception: a://h/o/models/models is accepted as a unique name with the name
  models, and with the further segment x it is accepted again, as a versioned URL.
\<close>

theorem ParseModelURL_extra_segment_counterexample:
  "parse_groups ''a://h/o/models/models'' = Some (''a'', ''h'', [], ''o'', ''models'') \<and>
   parse_groups (''a://h/o/models/models'' @ ''/'' @ ''x'') = Some (''a'', ''h'', ''o'', ''models'', ''x'') \<and>
   fst (ParseModelURL ex_config (''a://h/o/models/models'' @ ''/'' @ ''x'')
          default_ServerConfig default_ModelIdentifier)"
  by (simp add: ParseModelURL_def parse_groups_def regex_defs Let_def split_def)

end
